theory Spec2Isabelle
  imports Complex_Main "HOL-Library.Sublist"
begin

section \<open>Text model\<close>

text \<open>
  A Python \<open>str\<close> is modelled as a \<open>string\<close> whose characters are the code points
  0 to 255 (the Latin-1 block of Unicode).  The character classes below are Python's own
  for those code points: \<open>str.isspace\<close> (which is also what \<open>\s\<close>, \<open>str.strip\<close> and
  \<open>str.split\<close> use), the word characters of \<open>\b\<close> and \<open>\w\<close> (alphanumerics and the
  underscore) and \<open>str.lower\<close>.
\<close>

definition code :: "char \<Rightarrow> nat" where
  "code c = of_char c"

definition is_space :: "char \<Rightarrow> bool" where
  "is_space c = (code c \<in> {9, 10, 11, 12, 13, 28, 29, 30, 31, 32, 133, 160})"

definition is_ascii_alnum :: "char \<Rightarrow> bool" where
  "is_ascii_alnum c =
     (48 \<le> code c \<and> code c \<le> 57 \<or> 65 \<le> code c \<and> code c \<le> 90 \<or> 97 \<le> code c \<and> code c \<le> 122)"

definition is_word :: "char \<Rightarrow> bool" where
  "is_word c =
     (is_ascii_alnum c \<or> code c = 95 \<or>
      code c \<in> {170, 178, 179, 181, 185, 186, 188, 189, 190} \<or>
      192 \<le> code c \<and> code c \<le> 214 \<or> 216 \<le> code c \<and> code c \<le> 246 \<or> 248 \<le> code c)"

definition is_upper :: "char \<Rightarrow> bool" where
  "is_upper c =
     (65 \<le> code c \<and> code c \<le> 90 \<or> 192 \<le> code c \<and> code c \<le> 214 \<or> 216 \<le> code c \<and> code c \<le> 222)"

text \<open>An upper-case letter of this range and its lower-case form differ by 32, bit 5.\<close>

definition lower_char :: "char \<Rightarrow> char" where
  "lower_char c =
     (if is_upper c
      then (case c of Char b0 b1 b2 b3 b4 b5 b6 b7 \<Rightarrow> Char b0 b1 b2 b3 b4 True b6 b7)
      else c)"

definition lower :: "string \<Rightarrow> string" where
  "lower s = map lower_char s"

definition strip :: "string \<Rightarrow> string" where
  "strip s = rev (dropWhile is_space (rev (dropWhile is_space s)))"

text \<open>\<open>str.split()\<close> with no argument: the maximal runs of non-whitespace characters.\<close>

fun split_acc :: "string \<Rightarrow> string \<Rightarrow> string list" where
  "split_acc w [] = (if w = [] then [] else [w])"
| "split_acc w (c # cs) =
     (if is_space c then (if w = [] then split_acc [] cs else w # split_acc [] cs)
      else split_acc (w @ [c]) cs)"

definition split :: "string \<Rightarrow> string list" where
  "split s = split_acc [] s"

fun join :: "string list \<Rightarrow> string" where
  "join [] = []"
| "join [w] = w"
| "join (w # ws) = w @ CHR '' '' # join ws"

section \<open>Normalization\<close>

text \<open>
  \<open>re.sub(r"\bvs\b", " vs ", t, flags=re.I)\<close>: scanning from the left, every occurrence
  of \<open>vs\<close> in any letter case that has no word character directly before it and none
  directly after it becomes \<open>" vs "\<close>.  The first argument is the character before the
  scanning position, \<open>None\<close> at the start of the text.
\<close>

definition is_word_opt :: "char option \<Rightarrow> bool" where
  "is_word_opt p = (case p of None \<Rightarrow> False | Some c \<Rightarrow> is_word c)"

definition next_char :: "string \<Rightarrow> char option" where
  "next_char s = (case s of [] \<Rightarrow> None | c # _ \<Rightarrow> Some c)"

fun sub_vs :: "char option \<Rightarrow> string \<Rightarrow> string" where
  "sub_vs p [] = []"
| "sub_vs p [c] = [c]"
| "sub_vs p (c # d # cs) =
     (if lower_char c = CHR ''v'' \<and> lower_char d = CHR ''s'' \<and>
         \<not> is_word_opt p \<and> \<not> is_word_opt (next_char cs)
      then '' vs '' @ sub_vs (Some d) cs
      else c # sub_vs (Some c) (d # cs))"

definition keep_char :: "char \<Rightarrow> bool" where
  "keep_char c = (is_ascii_alnum c \<or> is_space c \<or> c \<in> set ''^*()+-'')"

definition normalize_keep_paren :: "string \<Rightarrow> string" where
  "normalize_keep_paren text =
     (if text = [] then []
      else
        let t = strip text;
            t = map (\<lambda>c. if c = CHR ''/'' then CHR '' '' else c) t;
            t = sub_vs None t;
            t = map (\<lambda>c. if keep_char c then c else CHR '' '') t;
            t = join (split t)
        in lower t)"

section \<open>Regular expressions\<close>

text \<open>
  The patterns of the scorer use literals, character sets, \<open>\s\<close>, \<open>\s*\<close>, \<open>?\<close>,
  alternation and the word boundary \<open>\b\<close>, all compiled with \<open>re.I\<close>.  A position in
  the text is the character before it (if any) and the rest of the text; \<open>rmatch r p\<close>
  lists the positions at which a match of \<open>r\<close> that starts at \<open>p\<close> can end.
  \<open>rx.search(txt)\<close> is truthy exactly when some start position has a match.
\<close>

datatype rx =
    Eps
  | Ch char
  | Set "char list"
  | Ws
  | WsStar
  | Bnd
  | Seq rx rx
  | Alt rx rx
  | Opt rx

type_synonym pos = "char option \<times> string"

fun ws_star :: "pos \<Rightarrow> pos list" where
  "ws_star (p, []) = [(p, [])]"
| "ws_star (p, c # cs) = (if is_space c then ws_star (Some c, cs) @ [(p, c # cs)] else [(p, c # cs)])"

definition step_if :: "(char \<Rightarrow> bool) \<Rightarrow> pos \<Rightarrow> pos list" where
  "step_if P st = (case snd st of [] \<Rightarrow> [] | c # cs \<Rightarrow> if P c then [(Some c, cs)] else [])"

definition at_boundary :: "pos \<Rightarrow> bool" where
  "at_boundary st = (is_word_opt (fst st) \<noteq> is_word_opt (next_char (snd st)))"

primrec rmatch :: "rx \<Rightarrow> pos \<Rightarrow> pos list" where
  "rmatch Eps st = [st]"
| "rmatch (Ch c) st = step_if (\<lambda>x. lower_char x = lower_char c) st"
| "rmatch (Set cs) st = step_if (\<lambda>x. x \<in> set cs) st"
| "rmatch Ws st = step_if is_space st"
| "rmatch WsStar st = ws_star st"
| "rmatch Bnd st = (if at_boundary st then [st] else [])"
| "rmatch (Seq a b) st = concat (map (rmatch b) (rmatch a st))"
| "rmatch (Alt a b) st = rmatch a st @ rmatch b st"
| "rmatch (Opt a) st = rmatch a st @ [st]"

fun search_from :: "rx \<Rightarrow> char option \<Rightarrow> string \<Rightarrow> bool" where
  "search_from r p [] = (rmatch r (p, []) \<noteq> [])"
| "search_from r p (c # cs) = (rmatch r (p, c # cs) \<noteq> [] \<or> search_from r (Some c) cs)"

definition re_search :: "rx \<Rightarrow> string \<Rightarrow> bool" where
  "re_search r s = search_from r None s"

definition seq :: "rx list \<Rightarrow> rx" where
  "seq rs = foldr Seq rs Eps"

definition alts :: "rx \<Rightarrow> rx list \<Rightarrow> rx" where
  "alts r rs = foldl Alt r rs"

definition lit :: "string \<Rightarrow> rx" where
  "lit s = seq (map Ch s)"

definition bounded :: "rx \<Rightarrow> rx" where
  "bounded r = Seq Bnd (Seq r Bnd)"

text \<open>\<open>(?:\*|\s)?\<close>\<close>

definition star_or_ws_opt :: rx where
  "star_or_ws_opt = Opt (Alt (Ch CHR ''*'') Ws)"

text \<open>
  \<open>\b(?:o\(?\s*n\s*[\^*]\s*2\)?|n\s*[\^*]\s*2|n\s*\*\s*n)\b\<close>
\<close>

definition rx_quadratic :: rx where
  "rx_quadratic = bounded (alts
     (seq [Ch CHR ''o'', Opt (Ch CHR ''(''), WsStar, Ch CHR ''n'', WsStar, Set ''^*'', WsStar,
           Ch CHR ''2'', Opt (Ch CHR '')'')])
     [seq [Ch CHR ''n'', WsStar, Set ''^*'', WsStar, Ch CHR ''2''],
      seq [Ch CHR ''n'', WsStar, Ch CHR ''*'', WsStar, Ch CHR ''n'']])"

text \<open>
  \<open>\b(?:o\(?\s*2\s*[\^]\s*n\)?|2\s*[\^]\s*n|exponential|2\^n)\b\<close>
\<close>

definition rx_exponential :: rx where
  "rx_exponential = bounded (alts
     (seq [Ch CHR ''o'', Opt (Ch CHR ''(''), WsStar, Ch CHR ''2'', WsStar, Set ''^'', WsStar,
           Ch CHR ''n'', Opt (Ch CHR '')'')])
     [seq [Ch CHR ''2'', WsStar, Set ''^'', WsStar, Ch CHR ''n''],
      lit ''exponential'',
      lit ''2^n''])"

text \<open>
  \<open>\b(?:o\(?\s*n\)?|linear(?:\s*time)?)\b\<close>
\<close>

definition rx_linear :: rx where
  "rx_linear = bounded (alts
     (seq [Ch CHR ''o'', Opt (Ch CHR ''(''), WsStar, Ch CHR ''n'', Opt (Ch CHR '')'')])
     [seq [lit ''linear'', Opt (seq [WsStar, lit ''time''])]])"

text \<open>
  \<open>\b(?:n\s*(?:\*|\s)?\s*log\s*n|n\s*log\s*n|o\(?\s*n\s*log\s*n\)?)\b\<close>
\<close>

definition rx_nlogn :: rx where
  "rx_nlogn = bounded (alts
     (seq [Ch CHR ''n'', WsStar, star_or_ws_opt, WsStar, lit ''log'', WsStar, Ch CHR ''n''])
     [seq [Ch CHR ''n'', WsStar, lit ''log'', WsStar, Ch CHR ''n''],
      seq [Ch CHR ''o'', Opt (Ch CHR ''(''), WsStar, Ch CHR ''n'', WsStar, lit ''log'', WsStar,
           Ch CHR ''n'', Opt (Ch CHR '')'')]])"

text \<open>
  \<open>\b(?:v\s*[\+&]\s*e|v\s*\+\s*e|v\+e|o\(?\s*v\s*\+\s*e\)?)\b\<close>
\<close>

definition rx_vplusE :: rx where
  "rx_vplusE = bounded (alts
     (seq [Ch CHR ''v'', WsStar, Set ''+&'', WsStar, Ch CHR ''e''])
     [seq [Ch CHR ''v'', WsStar, Ch CHR ''+'', WsStar, Ch CHR ''e''],
      lit ''v+e'',
      seq [Ch CHR ''o'', Opt (Ch CHR ''(''), WsStar, Ch CHR ''v'', WsStar, Ch CHR ''+'', WsStar,
           Ch CHR ''e'', Opt (Ch CHR '')'')]])"

text \<open>
  \<open>\b(?:n\s*(?:\*|\s)?\s*k\s*(?:\*|\s)?\s*log\s*k|o\(?\s*n\s*\*\s*k\s*log\s*k\)?)\b\<close>
\<close>

definition rx_n_k_logk :: rx where
  "rx_n_k_logk = bounded (alts
     (seq [Ch CHR ''n'', WsStar, star_or_ws_opt, WsStar, Ch CHR ''k'', WsStar, star_or_ws_opt,
           WsStar, lit ''log'', WsStar, Ch CHR ''k''])
     [seq [Ch CHR ''o'', Opt (Ch CHR ''(''), WsStar, Ch CHR ''n'', WsStar, Ch CHR ''*'', WsStar,
           Ch CHR ''k'', WsStar, lit ''log'', WsStar, Ch CHR ''k'', Opt (Ch CHR '')'')]])"

text \<open>
  \<open>\b(?:n\s*(?:\*|\s)\s*k|n\s+k)\b\<close>
\<close>

definition rx_n_k :: rx where
  "rx_n_k = bounded (alts
     (seq [Ch CHR ''n'', WsStar, Alt (Ch CHR ''*'') Ws, WsStar, Ch CHR ''k''])
     [seq [Ch CHR ''n'', Ws, WsStar, Ch CHR ''k'']])"

text \<open>The table, in the order in which the dictionary literal lists (and so iterates) it.\<close>

definition COMPLEXITY_REGEX :: "(string \<times> rx) list" where
  "COMPLEXITY_REGEX =
     [(''quadratic'', rx_quadratic),
      (''exponential'', rx_exponential),
      (''linear'', rx_linear),
      (''nlogn'', rx_nlogn),
      (''vplusE'', rx_vplusE),
      (''n_k_logk'', rx_n_k_logk),
      (''n_k'', rx_n_k)]"

section \<open>Phrase tables\<close>

definition PEER_INDICATORS :: "(string \<times> string list) list" where
  "PEER_INDICATORS =
     [(''complexity'',
       [''o(n^2)'', ''o(n*n)'', ''n^2'', ''n2'', ''quadratic'', ''o(n^3)'', ''n log n'',
        ''o(n log n)'', ''o(nlogn)'', ''polynomial'', ''o(v*e)'', ''o(v+e)'', ''o(n * k log k)'',
        ''o(n*k*log k)'', ''o(n*k log k)'', ''exponential'', ''2^n'', ''o(2^n)'']),
      (''off_by_one'',
       [''off-by-one'', ''off by one'', ''n-1'', ''n + 1'', ''n+1'', ''i <= n'',
        ''index out of range'', ''one too many'', ''off by'']),
      (''missing_base_case'',
       [''base case'', ''if n == 1'', ''if n == 0'', ''no base case'', ''missing base'',
        ''if not lst'', ''null checks'', ''empty list'', ''empty lists'', ''don't check empty'',
        ''won't check empty'', ''won't check'', ''skip empty'', ''forget base'',
        ''missing base case'', ''no base case'']),
      (''edge_case'',
       [''edge case'', ''handle empty'', ''handle negative'', ''watch out for empty'',
        ''check for none'', ''negative'', ''fails with negative'', ''empty'', ''null'',
        ''ignoring'', ''odd/even'', ''odd vs even'', ''odd and even'', ''odd even'',
        ''odd vs even lengths'', ''odd vs even length'']),
      (''inefficient'',
       [''nested loop'', ''nested loops'', ''pairwise'', ''compare each with every other'',
        ''pair wise'', ''inefficient'', ''n^2'', ''quadratic'', ''o(n log n)'',
        ''sorting each string'', ''sort each string'', ''sort each'', ''sorting each'',
        ''o(n * k log k)'', ''n * k log k'', ''n k log k''])]"

definition TEACHER_INDICATORS :: "(string \<times> string list) list" where
  "TEACHER_INDICATORS =
     [(''complexity'',
       [''o(n)'', ''linear'', ''linear time'', ''o(2^n)'', ''2^n'', ''exponential'',
        ''o(n log n)'', ''o(v+e)'', ''o(v + e)'', ''o(n*k)'', ''o(n * k)'']),
      (''off_by_one'',
       [''off-by-one'', ''off by one'', ''clarify whether n is 1-based'', ''one-based'',
        ''zero-based'', ''fix index'', ''use <= vs <'', ''off by'']),
      (''missing_base_case'',
       [''base case'', ''handle empty'', ''return 0'', ''add a base case'',
        ''check for empty list'', ''base-case checks'', ''base case check'']),
      (''edge_case'',
       [''edge case'', ''handle empty'', ''handle negative'', ''watch out for empty'',
        ''check for none'', ''null'', ''empty keys'', ''fails with negative'', ''bellman-ford'',
        ''odd/even'', ''odd vs even'', ''odd even'', ''odd/even splits'']),
      (''inefficient'',
       [''optimize'', ''avoid nested'', ''two-pointer'', ''linear time'', ''o(n)'',
        ''use hashmap'', ''use memo'', ''use dp'', ''inefficient'', ''o(n*k)'',
        ''use letter counts'', ''letter counts'', ''count characters''])]"

text \<open>\<open>TABLE.get(m, [])\<close>\<close>

definition get_patterns :: "(string \<times> string list) list \<Rightarrow> string \<Rightarrow> string list" where
  "get_patterns table m = (case map_of table m of None \<Rightarrow> [] | Some ps \<Rightarrow> ps)"

definition FUZZY_SCORE_THRESHOLD :: real where
  "FUZZY_SCORE_THRESHOLD = 82"

definition SHORT_PHRASE_FUZZY_THRESHOLD :: real where
  "SHORT_PHRASE_FUZZY_THRESHOLD = 88"

section \<open>Matching pipeline\<close>

text \<open>
  The morphological analyzer is loaded once and may be absent: it is the parameter
  \<open>nlp\<close>, \<open>None\<close> when loading failed.  When present, \<open>analyze text\<close> stands for
  \<open>[tok.lemma_.lower() for tok in nlp(text) if not tok.is_space]\<close>.
\<close>

type_synonym analyzer = "(string \<Rightarrow> string list) option"

definition lemmatize_tokens :: "analyzer \<Rightarrow> string \<Rightarrow> string list" where
  "lemmatize_tokens nlp text =
     (if text = [] then []
      else case nlp of
             None \<Rightarrow> split (normalize_keep_paren text)
           | Some analyze \<Rightarrow> analyze text)"

definition regex_complexity_detect :: "string \<Rightarrow> (string \<times> string) option" where
  "regex_complexity_detect text =
     (case List.find (\<lambda>(k, r). re_search r text) COMPLEXITY_REGEX of
        Some (k, r) \<Rightarrow> Some (k, ''regex'')
      | None \<Rightarrow> None)"

text \<open>\<open>p in txt\<close>\<close>

fun is_substr :: "string \<Rightarrow> string \<Rightarrow> bool" where
  "is_substr p [] = (p = [])"
| "is_substr p (c # cs) = (prefix p (c # cs) \<or> is_substr p cs)"

definition contains_any_substring :: "string \<Rightarrow> string list \<Rightarrow> string option" where
  "contains_any_substring text patterns =
     (let txt = normalize_keep_paren text in List.find (\<lambda>p. is_substr p txt) patterns)"

fun first_some :: "('a \<Rightarrow> 'b option) \<Rightarrow> 'a list \<Rightarrow> 'b option" where
  "first_some f [] = None"
| "first_some f (x # xs) = (case f x of Some y \<Rightarrow> Some y | None \<Rightarrow> first_some f xs)"

definition lemma_token_match :: "analyzer \<Rightarrow> string \<Rightarrow> string list \<Rightarrow> string option" where
  "lemma_token_match nlp text patterns =
     (let tokens = lemmatize_tokens nlp text in
      if tokens = [] then None
      else
        case List.find (\<lambda>p. \<forall>pt \<in> set (split (normalize_keep_paren p)). pt \<in> set tokens) patterns of
          Some p \<Rightarrow> Some p
        | None \<Rightarrow>
            (let L = length tokens in
             first_some (\<lambda>n.
               first_some (\<lambda>i.
                 let gram = join (take n (drop i tokens)) in
                 List.find (\<lambda>p. normalize_keep_paren p = gram) patterns)
               [0 ..< L - n + 1])
             (rev [1 ..< min 5 L + 1])))"

text \<open>
  The similarity measure \<open>fuzz.token_sort_ratio\<close> belongs to the rapidfuzz library and is
  the parameter \<open>scorer\<close>; its floating-point results are read as real numbers.
  \<open>process.extractOne\<close> is the library's selection of the best choice, modelled by its
  documented contract: the choice with the highest score, the first one among equals,
  and no result for an empty list of choices.
\<close>

type_synonym scorer = "string \<Rightarrow> string \<Rightarrow> real"

fun extract_best :: "(string \<Rightarrow> real) \<Rightarrow> (string \<times> real) \<Rightarrow> string list \<Rightarrow> (string \<times> real)" where
  "extract_best f b [] = b"
| "extract_best f b (p # ps) = extract_best f (if f p > snd b then (p, f p) else b) ps"

definition extractOne :: "string \<Rightarrow> string list \<Rightarrow> scorer \<Rightarrow> (string \<times> real) option" where
  "extractOne query choices sc =
     (case choices of [] \<Rightarrow> None | c # cs \<Rightarrow> Some (extract_best (sc query) (c, sc query c) cs))"

text \<open>The manual loop of the \<open>except\<close> branch, starting from \<open>best = (None, 0)\<close>.\<close>

fun manual_best :: "(string \<Rightarrow> real) \<Rightarrow> (string option \<times> real) \<Rightarrow> string list \<Rightarrow> (string option \<times> real)" where
  "manual_best f b [] = b"
| "manual_best f b (p # ps) = manual_best f (if f p > snd b then (Some p, f p) else b) ps"

text \<open>\<open>int(score)\<close> truncates towards zero.\<close>

definition py_int :: "real \<Rightarrow> int" where
  "py_int x = (if x \<ge> 0 then \<lfloor>x\<rfloor> else \<lceil>x\<rceil>)"

definition fuzzy_match :: "scorer \<Rightarrow> string \<Rightarrow> string list \<Rightarrow> (string \<times> int) option" where
  "fuzzy_match sc text patterns =
     (let txt = normalize_keep_paren text in
      if txt = [] then None
      else
        let (choice, score) =
              (case extractOne txt patterns sc of
                 Some (c, s) \<Rightarrow> (Some c, s)
               | None \<Rightarrow> manual_best (sc txt) (None, 0) patterns)
        in case choice of
             None \<Rightarrow> None
           | Some c \<Rightarrow>
               if c = [] then None
               else
                 let short = (length (split c) \<le> 2);
                     threshold = (if short then SHORT_PHRASE_FUZZY_THRESHOLD else FUZZY_SCORE_THRESHOLD)
                 in if score \<ge> threshold then Some (c, py_int score) else None)"

text \<open>Decimal rendering of an integer, as the f-string \<open>f"fuzzy:{score}"\<close> prints it.\<close>

definition digit_char :: "nat \<Rightarrow> char" where
  "digit_char d = (''0123456789'' ! d)"

function str_of_nat :: "nat \<Rightarrow> string" where
  "str_of_nat n = (if n < 10 then [digit_char n] else str_of_nat (n div 10) @ [digit_char (n mod 10)])"
  by pat_completeness auto
termination
  by (relation "measure id") auto

definition str_of_int :: "int \<Rightarrow> string" where
  "str_of_int i = (if i < 0 then CHR ''-'' # str_of_nat (nat (- i)) else str_of_nat (nat i))"

text \<open>A string result is truthy when it is present and non-empty.\<close>

definition truthy :: "string option \<Rightarrow> bool" where
  "truthy r = (case r of None \<Rightarrow> False | Some s \<Rightarrow> s \<noteq> [])"

definition matches_any :: "analyzer \<Rightarrow> scorer \<Rightarrow> string \<Rightarrow> string list \<Rightarrow> (string \<times> string) option" where
  "matches_any nlp sc text patterns =
     (if text = [] then None
      else case regex_complexity_detect text of
        Some reg \<Rightarrow> Some (fst reg, ''regex_complexity'')
      | None \<Rightarrow>
          (let sub = contains_any_substring text patterns in
           if truthy sub then Some (the sub, ''substr'')
           else
             let lm = lemma_token_match nlp text patterns in
             if truthy lm then Some (the lm, ''lemma'')
             else case fuzzy_match sc text patterns of
                    Some (pattern, score) \<Rightarrow> Some (pattern, ''fuzzy:'' @ str_of_int score)
                  | None \<Rightarrow> None))"

section \<open>Pair scorer\<close>

text \<open>
  A match result is the triple \<open>(bool(m), m[0] if m else None, m[1] if m else None)\<close>
  that \<open>score_pair\<close> stores for a category.
\<close>

type_synonym match_result = "bool \<times> string option \<times> string option"

definition match_result_of :: "(string \<times> string) option \<Rightarrow> match_result" where
  "match_result_of m =
     (case m of None \<Rightarrow> (False, None, None) | Some (pat, method) \<Rightarrow> (True, Some pat, Some method))"

definition match_category :: "analyzer \<Rightarrow> scorer \<Rightarrow> string \<Rightarrow> string list \<Rightarrow> match_result" where
  "match_category nlp sc text patterns = match_result_of (matches_any nlp sc text patterns)"

datatype error = KeyError string

record score_result =
  peer_detected :: "string \<rightharpoonup> match_result"
  teacher_fixed :: "string \<rightharpoonup> match_result"
  pass :: bool

text \<open>\<open>text or ""\<close>: a missing text is the empty text.\<close>

definition or_empty :: "string option \<Rightarrow> string" where
  "or_empty t = (case t of None \<Rightarrow> [] | Some s \<Rightarrow> s)"

definition score_step ::
  "analyzer \<Rightarrow> scorer \<Rightarrow> string option \<Rightarrow> string option \<Rightarrow> string \<Rightarrow>
   (string \<rightharpoonup> match_result) \<times> (string \<rightharpoonup> match_result) \<Rightarrow>
   (string \<rightharpoonup> match_result) \<times> (string \<rightharpoonup> match_result)" where
  "score_step nlp sc peer_text teacher_text m d =
     (let peer_patterns = get_patterns PEER_INDICATORS m;
          teacher_patterns = get_patterns TEACHER_INDICATORS m;
          pm = matches_any nlp sc (or_empty peer_text) peer_patterns;
          tm = matches_any nlp sc (or_empty teacher_text) teacher_patterns
      in ((fst d)(m \<mapsto> match_result_of pm), (snd d)(m \<mapsto> match_result_of tm)))"

text \<open>
  \<open>all(peer_detected[m][0] and teacher_fixed[m][0] for m in expected_mistakes)\<close>: a
  subscript of a key that is not in the dictionary raises \<open>KeyError\<close>; \<open>and\<close> and \<open>all\<close>
  stop at the first false value.
\<close>

fun all_pass ::
  "(string \<rightharpoonup> match_result) \<Rightarrow> (string \<rightharpoonup> match_result) \<Rightarrow> string list \<Rightarrow> error + bool" where
  "all_pass pd tf [] = Inr True"
| "all_pass pd tf (m # ms) =
     (case pd m of
        None \<Rightarrow> Inl (KeyError m)
      | Some r \<Rightarrow>
          if fst r then
            (case tf m of
               None \<Rightarrow> Inl (KeyError m)
             | Some r' \<Rightarrow> if fst r' then all_pass pd tf ms else Inr False)
          else Inr False)"

definition score_pair ::
  "analyzer \<Rightarrow> scorer \<Rightarrow> string option \<Rightarrow> string option \<Rightarrow> string list \<Rightarrow> error + score_result" where
  "score_pair nlp sc peer_text teacher_text expected_mistakes =
     (let d = fold (score_step nlp sc peer_text teacher_text) expected_mistakes (Map.empty, Map.empty)
      in case all_pass (fst d) (snd d) expected_mistakes of
           Inl e \<Rightarrow> Inl e
         | Inr overall_pass \<Rightarrow>
             Inr \<lparr>peer_detected = fst d, teacher_fixed = snd d, pass = overall_pass\<rparr>)"

section \<open>Example scorers\<close>

text \<open>A similarity measure that gives every pair of strings the same score.\<close>

definition const_scorer :: "real \<Rightarrow> scorer" where
  "const_scorer v t p = v"

section \<open>Specification-side notions\<close>

text \<open>
  The specification's wording of the fuzzy selection, for comparison with
  \<open>extractOne\<close>: \<open>c\<close> is the single highest-scoring phrase of the list, ties broken by
  first occurrence, when it stands at some index of the list, no phrase scores higher
  and every phrase before that index scores strictly lower.
\<close>

definition first_best :: "(string \<Rightarrow> real) \<Rightarrow> string list \<Rightarrow> string \<Rightarrow> bool" where
  "first_best f ps c =
     (\<exists>i < length ps. ps ! i = c \<and> (\<forall>j < length ps. f (ps ! j) \<le> f c) \<and> (\<forall>j < i. f (ps ! j) < f c))"

text \<open>
  The specification's two conditions of the lemma stage, over the lemma sequence of the
  text: every normalized, whitespace-split token of the phrase is among the lemmas; and
  the normalized phrase equals a contiguous n-gram of the lemma sequence, joined by single
  spaces, for some \<open>n\<close> from 1 to \<open>min(5, length)\<close>.
\<close>

definition all_tokens_present :: "string list \<Rightarrow> string \<Rightarrow> bool" where
  "all_tokens_present tokens p = (\<forall>pt \<in> set (split (normalize_keep_paren p)). pt \<in> set tokens)"

definition is_ngram :: "string list \<Rightarrow> string \<Rightarrow> bool" where
  "is_ngram tokens p =
     (\<exists>n i. 1 \<le> n \<and> n \<le> min 5 (length tokens) \<and> i + n \<le> length tokens \<and>
            normalize_keep_paren p = join (take n (drop i tokens)))"

definition space_free :: "string \<Rightarrow> bool" where
  "space_free t = (\<forall>c \<in> set t. \<not> is_space c)"

section \<open>Evaluation rules\<close>


lemmas char_defs = code_def is_space_def is_ascii_alnum_def is_word_def is_upper_def lower_char_def
  is_word_opt_def next_char_def keep_char_def
lemmas norm_defs = normalize_keep_paren_def strip_def split_def lower_def
lemmas rx_defs = re_search_def seq_def alts_def lit_def bounded_def star_or_ws_opt_def step_if_def
  at_boundary_def rx_quadratic_def rx_exponential_def rx_linear_def rx_nlogn_def rx_vplusE_def
  rx_n_k_logk_def rx_n_k_def COMPLEXITY_REGEX_def regex_complexity_detect_def

lemma fold_score_step:
  "fold (score_step nlp sc pt tt) ms (pd, tf) =
     ((\<lambda>m. if m \<in> set ms
            then Some (match_category nlp sc (or_empty pt) (get_patterns PEER_INDICATORS m))
            else pd m),
      (\<lambda>m. if m \<in> set ms
            then Some (match_category nlp sc (or_empty tt) (get_patterns TEACHER_INDICATORS m))
            else tf m))"
proof (induction ms arbitrary: pd tf)
  case Nil
  show ?case by simp
next
  case (Cons a ms)
  have step: "score_step nlp sc pt tt a (pd, tf) =
      (pd(a \<mapsto> match_category nlp sc (or_empty pt) (get_patterns PEER_INDICATORS a)),
       tf(a \<mapsto> match_category nlp sc (or_empty tt) (get_patterns TEACHER_INDICATORS a)))"
    by (simp add: score_step_def match_category_def Let_def)
  have "fold (score_step nlp sc pt tt) (a # ms) (pd, tf) =
        fold (score_step nlp sc pt tt) ms (score_step nlp sc pt tt a (pd, tf))"
    by simp
  also have "\<dots> = fold (score_step nlp sc pt tt) ms
      (pd(a \<mapsto> match_category nlp sc (or_empty pt) (get_patterns PEER_INDICATORS a)),
       tf(a \<mapsto> match_category nlp sc (or_empty tt) (get_patterns TEACHER_INDICATORS a)))"
    by (simp only: step)
  finally show ?case
    by (simp only: Cons.IH) (auto simp: fun_eq_iff)
qed

lemma all_pass_total:
  assumes "\<forall>m \<in> set ms. pd m \<noteq> None \<and> tf m \<noteq> None"
  shows "all_pass pd tf ms = Inr (\<forall>m \<in> set ms. fst (the (pd m)) \<and> fst (the (tf m)))"
  using assms by (induction ms) auto

lemma score_pair_eq:
  "score_pair nlp sc pt tt ms =
     Inr \<lparr>peer_detected = (\<lambda>m. if m \<in> set ms
            then Some (match_category nlp sc (or_empty pt) (get_patterns PEER_INDICATORS m))
            else None),
          teacher_fixed = (\<lambda>m. if m \<in> set ms
            then Some (match_category nlp sc (or_empty tt) (get_patterns TEACHER_INDICATORS m))
            else None),
          pass = (\<forall>m \<in> set ms.
             fst (match_category nlp sc (or_empty pt) (get_patterns PEER_INDICATORS m)) \<and>
             fst (match_category nlp sc (or_empty tt) (get_patterns TEACHER_INDICATORS m)))\<rparr>"
proof -
  let ?pd = "\<lambda>m. if m \<in> set ms
            then Some (match_category nlp sc (or_empty pt) (get_patterns PEER_INDICATORS m))
            else None"
  let ?tf = "\<lambda>m. if m \<in> set ms
            then Some (match_category nlp sc (or_empty tt) (get_patterns TEACHER_INDICATORS m))
            else None"
  have d: "fold (score_step nlp sc pt tt) ms (Map.empty, Map.empty) = (?pd, ?tf)"
    by (simp add: fold_score_step)
  have "all_pass ?pd ?tf ms = Inr (\<forall>m \<in> set ms. fst (the (?pd m)) \<and> fst (the (?tf m)))"
    by (rule all_pass_total) simp
  then have a: "all_pass ?pd ?tf ms = Inr (\<forall>m \<in> set ms.
             fst (match_category nlp sc (or_empty pt) (get_patterns PEER_INDICATORS m)) \<and>
             fst (match_category nlp sc (or_empty tt) (get_patterns TEACHER_INDICATORS m)))"
    by (simp cong: ball_cong)
  show ?thesis
    unfolding score_pair_def d Let_def fst_conv snd_conv a by simp
qed

text \<open>
  Claim C1.  For a non-empty list of expected categories, \<open>score_pair\<close> returns a result
  whose two mappings hold, for every listed category, the match result of the peer text
  and of the teacher text, and whose \<open>pass\<close> flag is true if and only if, for every
  listed category, both the peer-detected flag and the teacher-fixed flag are true.
\<close>

theorem score_pair_pass_iff:
  assumes "expected \<noteq> []"
  shows "\<exists>r. score_pair nlp sc peer_text teacher_text expected = Inr r \<and>
           (\<forall>m \<in> set expected.
              peer_detected r m = Some (match_category nlp sc (or_empty peer_text) (get_patterns PEER_INDICATORS m)) \<and>
              teacher_fixed r m = Some (match_category nlp sc (or_empty teacher_text) (get_patterns TEACHER_INDICATORS m))) \<and>
           (pass r \<longleftrightarrow>
              (\<forall>m \<in> set expected. fst (the (peer_detected r m)) \<and> fst (the (teacher_fixed r m))))"
  by (simp add: score_pair_eq cong: ball_cong)

lemma detect_n2: "regex_complexity_detect ''n^2'' = Some (''quadratic'', ''regex'')"
  by (simp add: rx_defs char_defs)

lemma detect_On: "regex_complexity_detect ''O(n)'' = Some (''linear'', ''regex'')"
  by (simp add: rx_defs char_defs)

lemma detect_hello: "regex_complexity_detect ''hello'' = None"
  by (simp add: rx_defs char_defs)


lemma first_some_None: "(\<And>x. x \<in> set xs \<Longrightarrow> f x = None) \<Longrightarrow> first_some f xs = None"
  by (induction xs) auto

lemma detect_empty: "regex_complexity_detect [] = None"
  by (simp add: rx_defs char_defs)

lemma matches_any_no_patterns:
  "matches_any nlp sc text [] =
     (if text = [] then None
      else case regex_complexity_detect text of
             Some reg \<Rightarrow> Some (fst reg, ''regex_complexity'')
           | None \<Rightarrow> None)"
proof -
  have 1: "contains_any_substring text [] = None"
    by (simp add: contains_any_substring_def)
  have 2: "lemma_token_match nlp text [] = None"
    by (simp add: lemma_token_match_def Let_def first_some_None)
  have 3: "fuzzy_match sc text [] = None"
    by (simp add: fuzzy_match_def extractOne_def Let_def)
  show ?thesis
    by (simp add: matches_any_def 1 2 3 truthy_def Let_def split: option.splits)
qed

lemma matches_any_empty_text: "matches_any nlp sc [] patterns = None"
  by (simp add: matches_any_def)

lemma get_patterns_unknown: "m \<notin> fst ` set table \<Longrightarrow> get_patterns table m = []"
proof -
  assume "m \<notin> fst ` set table"
  then have "map_of table m = None" by (simp add: map_of_eq_None_iff)
  then show ?thesis by (simp add: get_patterns_def)
qed

text \<open>
  Claim C9.  \<open>score_pair\<close> returns a result for every input, whatever the category
  names and also for missing or empty texts.  When both texts are empty or missing, every
  listed category has the entries \<open>(False, None, None)\<close> on both sides and, the list
  being non-empty, \<open>pass\<close> is false.  A category that is not in a phrase table has no
  match on that side unless the complexity detector fires on the text, in which case the
  entry is the detected family with method \<open>regex_complexity\<close>.
\<close>

theorem score_pair_total:
  "\<exists>r. score_pair nlp sc peer_text teacher_text expected = Inr r \<and>
     (or_empty peer_text = [] \<and> or_empty teacher_text = [] \<longrightarrow>
        (\<forall>m \<in> set expected.
           peer_detected r m = Some (False, None, None) \<and>
           teacher_fixed r m = Some (False, None, None)) \<and>
        (expected \<noteq> [] \<longrightarrow> \<not> pass r)) \<and>
     (\<forall>m \<in> set expected. m \<notin> fst ` set PEER_INDICATORS \<longrightarrow>
        peer_detected r m =
          Some (case regex_complexity_detect (or_empty peer_text) of
                  None \<Rightarrow> (False, None, None)
                | Some (k, via) \<Rightarrow> (True, Some k, Some ''regex_complexity''))) \<and>
     (\<forall>m \<in> set expected. m \<notin> fst ` set TEACHER_INDICATORS \<longrightarrow>
        teacher_fixed r m =
          Some (case regex_complexity_detect (or_empty teacher_text) of
                  None \<Rightarrow> (False, None, None)
                | Some (k, via) \<Rightarrow> (True, Some k, Some ''regex_complexity'')))"
proof -
  have unknown: "match_category nlp sc t [] =
      (case regex_complexity_detect t of
         None \<Rightarrow> (False, None, None)
       | Some (k, via) \<Rightarrow> (True, Some k, Some ''regex_complexity''))" for t
    by (cases "t = []")
       (auto simp: match_category_def matches_any_no_patterns match_result_of_def detect_empty
             split: option.splits)
  have empty: "match_category nlp sc [] ps = (False, None, None)" for ps
    by (simp add: match_category_def matches_any_empty_text match_result_of_def)
  have nonempty: "expected \<noteq> [] \<Longrightarrow> \<exists>m. m \<in> set expected"
    by (cases expected) auto
  show ?thesis
    unfolding score_pair_eq
    using nonempty by (auto simp: empty unknown get_patterns_unknown)
qed

text \<open>
  The theorem at missing and empty texts, with one unknown and one known category.
\<close>

theorem score_pair_total_witness:
  "\<exists>r. score_pair None (\<lambda>a b. 0) None (Some []) [''nonexistent_category'', ''complexity''] = Inr r \<and>
     peer_detected r ''complexity'' = Some (False, None, None) \<and>
     teacher_fixed r ''complexity'' = Some (False, None, None) \<and>
     peer_detected r ''nonexistent_category'' = Some (False, None, None) \<and>
     \<not> pass r"
  using score_pair_total [of None "\<lambda>a b. 0" None "Some []" "[''nonexistent_category'', ''complexity'']"]
  by (auto simp: or_empty_def)

text \<open>
  Claim C10.  With an empty list of expected categories, \<open>score_pair\<close> returns empty
  mappings and \<open>pass = True\<close>, whatever the two texts are.
\<close>

theorem score_pair_no_categories:
  "score_pair nlp sc peer_text teacher_text [] =
     Inr \<lparr>peer_detected = Map.empty, teacher_fixed = Map.empty, pass = True\<rparr>"
  by (simp add: score_pair_def)

text \<open>
  The theorem at a concrete peer text and a missing teacher text.
\<close>

theorem score_pair_no_categories_witness:
  "score_pair None (\<lambda>a b. 0) (Some ''hello'') None [] =
     Inr \<lparr>peer_detected = Map.empty, teacher_fixed = Map.empty, pass = True\<rparr>"
  using score_pair_no_categories [of None "\<lambda>a b. 0" "Some ''hello''" None] by simp

text \<open>
  The theorem of claim C1 at the category list \<open>["complexity"]\<close>, where both sides match.
\<close>

theorem score_pair_pass_iff_witness:
  "[''complexity''] \<noteq> [] \<and>
   (\<exists>r. score_pair None (\<lambda>a b. 0) (Some ''n^2'') (Some ''O(n)'') [''complexity''] = Inr r \<and>
        peer_detected r ''complexity'' = Some (True, Some ''quadratic'', Some ''regex_complexity'') \<and>
        teacher_fixed r ''complexity'' = Some (True, Some ''linear'', Some ''regex_complexity'') \<and>
        pass r)"
  using score_pair_pass_iff [of "[''complexity'']" None "\<lambda>a b. 0" "Some ''n^2''" "Some ''O(n)''"]
  by (auto simp: or_empty_def match_category_def matches_any_def detect_n2 detect_On match_result_of_def)

text \<open>
  Claim C2.  When a non-empty text is matched by one of the complexity patterns, the
  category match is \<open>matched = True\<close> with method \<open>regex_complexity\<close> and the detected
  family key as the matched pattern, for every phrase list: the list is not consulted.
\<close>

theorem regex_short_circuit:
  assumes "text \<noteq> []" and "(k, r) \<in> set COMPLEXITY_REGEX" and "re_search r text"
  shows "\<exists>k'. regex_complexity_detect text = Some (k', ''regex'') \<and>
           matches_any nlp sc text patterns = Some (k', ''regex_complexity'') \<and>
           match_category nlp sc text patterns = (True, Some k', Some ''regex_complexity'')"
proof -
  have "List.find (\<lambda>(k, r). re_search r text) COMPLEXITY_REGEX \<noteq> None"
    using assms(2,3) by (auto simp: find_None_iff)
  then obtain k' r' where "List.find (\<lambda>(k, r). re_search r text) COMPLEXITY_REGEX = Some (k', r')"
    by (cases "List.find (\<lambda>(k, r). re_search r text) COMPLEXITY_REGEX") auto
  then have "regex_complexity_detect text = Some (k', ''regex'')"
    by (simp add: regex_complexity_detect_def)
  then show ?thesis
    using assms(1) by (simp add: matches_any_def match_category_def match_result_of_def)
qed

lemma search_quadratic_n2: "re_search rx_quadratic ''n^2''"
  by (simp add: rx_defs char_defs)

text \<open>
  The theorem at the text \<open>n^2\<close>, with the phrase list of an unrelated category and
  with the empty phrase list.
\<close>

theorem regex_short_circuit_witness:
  "''n^2'' \<noteq> [] \<and> (''quadratic'', rx_quadratic) \<in> set COMPLEXITY_REGEX \<and>
   re_search rx_quadratic ''n^2'' \<and>
   matches_any None (\<lambda>a b. 0) ''n^2'' (get_patterns PEER_INDICATORS ''edge_case'') =
      Some (''quadratic'', ''regex_complexity'') \<and>
   match_category None (\<lambda>a b. 0) ''n^2'' [] = (True, Some ''quadratic'', Some ''regex_complexity'')"
proof -
  have a: "''n^2'' \<noteq> []" by simp
  have b: "(''quadratic'', rx_quadratic) \<in> set COMPLEXITY_REGEX"
    by (simp add: COMPLEXITY_REGEX_def)
  show ?thesis
    using regex_short_circuit [OF a b search_quadratic_n2, of None "\<lambda>a b. 0"] a b
      search_quadratic_n2 detect_n2
    by auto
qed


text \<open>
  Claim C5.  The substring stage tests each phrase as it is written against the normalized
  text; it does not normalize the phrase.  The phrase \<open>odd/even\<close> has the normalized
  form \<open>odd even\<close>, which occurs in the normalized text \<open>odd even\<close>, and yet the stage
  returns no match.
\<close>

theorem substring_stage_raw_phrase:
  "is_substr (normalize_keep_paren ''odd/even'') (normalize_keep_paren ''odd even'') \<and>
   contains_any_substring ''odd even'' [''odd/even''] = None"
  by (simp add: contains_any_substring_def norm_defs char_defs)

text \<open>
  Claim C7, as stated, fails.  In \<open>_vs)\<close> the underscore is a word character, so \<open>vs\<close>
  is not padded; the underscore then becomes a space and the result is \<open>vs)\<close>.  There
  \<open>vs\<close> stands at a word boundary and a second application gives \<open>vs )\<close>.
\<close>

theorem normalize_not_idempotent:
  "normalize_keep_paren (normalize_keep_paren ''_vs)'') \<noteq> normalize_keep_paren ''_vs)''"
  by (simp add: norm_defs char_defs)

lemma detect_abc: "regex_complexity_detect ''abc'' = None"
  by (simp add: rx_defs char_defs)

lemma detect_On2: "regex_complexity_detect ''O(n^2)'' = Some (''quadratic'', ''regex'')"
  by (simp add: rx_defs char_defs)

lemma norm_abc: "normalize_keep_paren ''abc'' = ''abc''"
  by (simp add: norm_defs char_defs)






lemma first_best_unique:
  assumes "first_best f ps c" and "first_best f ps d"
  shows "c = d"
proof -
  from assms(1) obtain i where i: "i < length ps" "ps ! i = c"
    "\<forall>j < length ps. f (ps ! j) \<le> f c" "\<forall>j < i. f (ps ! j) < f c"
    by (auto simp: first_best_def)
  from assms(2) obtain k where k: "k < length ps" "ps ! k = d"
    "\<forall>j < length ps. f (ps ! j) \<le> f d" "\<forall>j < k. f (ps ! j) < f d"
    by (auto simp: first_best_def)
  have "\<not> i < k"
  proof
    assume "i < k"
    then have "f c < f d" using k(4) i(2) by auto
    moreover have "f d \<le> f c" using i(3) k(1,2) by auto
    ultimately show False by simp
  qed
  moreover have "\<not> k < i"
  proof
    assume "k < i"
    then have "f d < f c" using i(4) k(2) by auto
    moreover have "f c \<le> f d" using k(3) i(1,2) by auto
    ultimately show False by simp
  qed
  ultimately have "i = k" by simp
  then show ?thesis using i(2) k(2) by simp
qed

lemma first_best_snoc_new:
  assumes "first_best f pre c" and "f c < f p"
  shows "first_best f (pre @ [p]) p"
proof -
  from assms(1) have le: "\<forall>j < length pre. f (pre ! j) \<le> f c"
    by (auto simp: first_best_def)
  have "\<forall>j < length pre. f ((pre @ [p]) ! j) < f p"
    using le assms(2) by (auto simp: nth_append intro: le_less_trans)
  moreover have "\<forall>j < length (pre @ [p]). f ((pre @ [p]) ! j) \<le> f p"
    using le assms(2) by (auto simp: nth_append less_Suc_eq intro: less_imp_le le_less_trans)
  ultimately show ?thesis
    unfolding first_best_def
    by (intro exI [of _ "length pre"]) simp
qed

lemma first_best_snoc_keep:
  assumes "first_best f pre c" and "\<not> f c < f p"
  shows "first_best f (pre @ [p]) c"
proof -
  from assms(1) obtain i where i: "i < length pre" "pre ! i = c"
    "\<forall>j < length pre. f (pre ! j) \<le> f c" "\<forall>j < i. f (pre ! j) < f c"
    by (auto simp: first_best_def)
  have "\<forall>j < length (pre @ [p]). f ((pre @ [p]) ! j) \<le> f c"
    using i(3) assms(2) by (auto simp: nth_append less_Suc_eq)
  moreover have "\<forall>j < i. f ((pre @ [p]) ! j) < f c"
    using i(1,4) by (auto simp: nth_append)
  moreover have "(pre @ [p]) ! i = c" "i < length (pre @ [p])"
    using i(1,2) by (auto simp: nth_append)
  ultimately show ?thesis
    unfolding first_best_def by blast
qed

lemma extract_best_first_best:
  assumes "first_best f pre c"
  shows "\<exists>c'. extract_best f (c, f c) ps = (c', f c') \<and> first_best f (pre @ ps) c'"
  using assms
proof (induction ps arbitrary: pre c)
  case Nil
  then show ?case by simp
next
  case (Cons p ps)
  show ?case
  proof (cases "f c < f p")
    case True
    have "first_best f (pre @ [p]) p"
      using Cons.prems True by (rule first_best_snoc_new)
    from Cons.IH [OF this] show ?thesis
      using True by simp
  next
    case False
    have "first_best f (pre @ [p]) c"
      using Cons.prems False by (rule first_best_snoc_keep)
    from Cons.IH [OF this] show ?thesis
      using False by simp
  qed
qed

lemma first_best_single: "first_best f [c] c"
  by (simp add: first_best_def)

lemma extractOne_first_best:
  assumes "ps \<noteq> []"
  shows "\<exists>c. extractOne q ps sc = Some (c, sc q c) \<and> first_best (sc q) ps c"
proof -
  from assms obtain p ps' where ps: "ps = p # ps'" by (cases ps) auto
  from extract_best_first_best [OF first_best_single, of "sc q" p ps']
  show ?thesis by (auto simp: extractOne_def ps)
qed

text \<open>
  Claim C6.  For a text whose normalized form is non-empty and a non-empty phrase list,
  there is a single highest-scoring phrase with ties broken by first occurrence, and the
  fuzzy matcher returns it, with its score truncated to an integer, exactly when the
  score is at least 88 for a phrase of at most two words and at least 82 for a longer
  one; otherwise it returns no match.  The similarity measure is arbitrary, except that
  an empty phrase in the list scores below the threshold, as every measure of rapidfuzz
  does against a non-empty text.
\<close>

theorem fuzzy_match_threshold:
  assumes "normalize_keep_paren text \<noteq> []"
    and "patterns \<noteq> []"
    and "\<forall>p \<in> set patterns. p = [] \<longrightarrow> sc (normalize_keep_paren text) p < 82"
  shows "(\<exists>best. first_best (sc (normalize_keep_paren text)) patterns best) \<and>
         (\<forall>best. first_best (sc (normalize_keep_paren text)) patterns best \<longrightarrow>
            fuzzy_match sc text patterns =
              (if sc (normalize_keep_paren text) best \<ge> (if length (split best) \<le> 2 then 88 else 82)
               then Some (best, py_int (sc (normalize_keep_paren text) best))
               else None))"
proof -
  let ?txt = "normalize_keep_paren text"
  from extractOne_first_best [OF assms(2), of ?txt sc]
  obtain c where c: "extractOne ?txt patterns sc = Some (c, sc ?txt c)"
    and fb: "first_best (sc ?txt) patterns c"
    by blast
  have cin: "c \<in> set patterns"
    using fb by (auto simp: first_best_def)
  have eq: "fuzzy_match sc text patterns =
      (if sc ?txt c \<ge> (if length (split c) \<le> 2 then 88 else 82)
       then Some (c, py_int (sc ?txt c)) else None)"
  proof (cases "c = []")
    case True
    then have "sc ?txt c < 82" using assms(3) cin by blast
    then show ?thesis
      using True assms(1) by (simp add: fuzzy_match_def c Let_def)
  next
    case False
    then show ?thesis
      using assms(1)
      by (simp add: fuzzy_match_def c Let_def SHORT_PHRASE_FUZZY_THRESHOLD_def
          FUZZY_SCORE_THRESHOLD_def)
  qed
  show ?thesis
  proof (intro conjI allI impI)
    show "\<exists>best. first_best (sc ?txt) patterns best" using fb by blast
  next
    fix best assume "first_best (sc ?txt) patterns best"
    then have "best = c" using fb by (rule first_best_unique)
    then show "fuzzy_match sc text patterns =
      (if sc ?txt best \<ge> (if length (split best) \<le> 2 then 88 else 82)
       then Some (best, py_int (sc ?txt best)) else None)"
      using eq by simp
  qed
qed

lemma norm_abc2: "normalize_keep_paren ''abc'' = ''abc''"
  by code_simp

lemma split_wxyz: "length (split ''w x y z'') = 4"
  by code_simp

lemma split_wx: "length (split ''w x'') = 2"
  by code_simp

text \<open>
  The theorem at a best score of 85: a four-word phrase matches, a two-word phrase does
  not.
\<close>

theorem fuzzy_match_threshold_witness:
  "normalize_keep_paren ''abc'' \<noteq> [] \<and>
   fuzzy_match (const_scorer 85) ''abc'' [''w x y z''] = Some (''w x y z'', 85) \<and>
   fuzzy_match (const_scorer 85) ''abc'' [''w x''] = None"
proof -
  have a: "normalize_keep_paren ''abc'' \<noteq> []" by (simp add: norm_abc2)
  have b4: "[''w x y z''] \<noteq> []" and b2: "[''w x''] \<noteq> []" by simp_all
  have c4: "\<forall>p \<in> set [''w x y z'']. p = [] \<longrightarrow> const_scorer 85 (normalize_keep_paren ''abc'') p < 82"
    by simp
  have c2: "\<forall>p \<in> set [''w x'']. p = [] \<longrightarrow> const_scorer 85 (normalize_keep_paren ''abc'') p < 82"
    by simp
  have "fuzzy_match (const_scorer 85) ''abc'' [''w x y z''] = Some (''w x y z'', 85)"
    using fuzzy_match_threshold [of "''abc''" "[''w x y z'']" "const_scorer 85", OF a b4 c4] first_best_single [of "const_scorer 85 (normalize_keep_paren ''abc'')" "''w x y z''"]
    by (simp add: split_wxyz const_scorer_def py_int_def)
  moreover have "fuzzy_match (const_scorer 85) ''abc'' [''w x''] = None"
    using fuzzy_match_threshold [of "''abc''" "[''w x'']" "const_scorer 85", OF a b2 c2] first_best_single [of "const_scorer 85 (normalize_keep_paren ''abc'')" "''w x''"]
    by (simp add: split_wx const_scorer_def py_int_def)
  ultimately show ?thesis using a by simp
qed

lemma split_acc_word:
  "space_free t \<Longrightarrow> split_acc w (t @ rest) = split_acc (w @ t) rest"
  by (induction t arbitrary: w) (auto simp: space_free_def)

lemma split_acc_word_end:
  assumes "space_free t"
  shows "split_acc [] t = (if t = [] then [] else [t])"
  using split_acc_word [OF assms, of "[]" "[]"] by simp

lemma split_join:
  "\<forall>t \<in> set ts. space_free t \<Longrightarrow> split (join ts) = filter (\<lambda>t. t \<noteq> []) ts"
proof (induction ts rule: join.induct)
  case 1
  then show ?case by (simp add: split_def)
next
  case (2 w)
  then show ?case by (simp add: split_def split_acc_word_end)
next
  case (3 w v ws)
  have w: "space_free w" using "3.prems" by simp
  have rest: "split (join (v # ws)) = filter (\<lambda>t. t \<noteq> []) (v # ws)"
    using "3.IH" "3.prems" by simp
  have "split_acc [] (w @ CHR '' '' # join (v # ws)) = split_acc w (CHR '' '' # join (v # ws))"
    using split_acc_word [OF w, of "[]"] by simp
  also have "\<dots> = (if w = [] then split (join (v # ws)) else w # split (join (v # ws)))"
    by (simp add: split_def is_space_def code_def)
  finally show ?case
    using rest by (simp add: split_def)
qed

lemma split_acc_space_free:
  "t \<in> set (split_acc w s) \<Longrightarrow> space_free w \<Longrightarrow> space_free t"
proof (induction s arbitrary: w)
  case Nil
  then show ?case by (auto split: if_splits)
next
  case (Cons c s)
  show ?case
  proof (cases "is_space c")
    case True
    have e: "space_free []" by (simp add: space_free_def)
    from Cons.prems True have "t = w \<or> t \<in> set (split_acc [] s)"
      by (auto split: if_splits)
    then show ?thesis using Cons.IH [OF _ e] Cons.prems(2) by blast
  next
    case False
    then have "space_free (w @ [c])" using Cons.prems(2) by (simp add: space_free_def)
    moreover have "t \<in> set (split_acc (w @ [c]) s)" using Cons.prems(1) False by simp
    ultimately show ?thesis by (rule Cons.IH [rotated])
  qed
qed

lemma split_space_free: "t \<in> set (split s) \<Longrightarrow> space_free t"
  unfolding split_def by (erule split_acc_space_free) (simp add: space_free_def)

lemma ngram_tokens_present:
  assumes "\<forall>t \<in> set tokens. space_free t"
    and "normalize_keep_paren p = join (take n (drop i tokens))"
  shows "all_tokens_present tokens p"
proof -
  let ?gram = "take n (drop i tokens)"
  have sub: "set ?gram \<subseteq> set tokens"
    using set_take_subset set_drop_subset by fast
  then have "\<forall>t \<in> set ?gram. space_free t" using assms(1) by blast
  then have "split (join ?gram) = filter (\<lambda>t. t \<noteq> []) ?gram" by (rule split_join)
  then have "set (split (normalize_keep_paren p)) \<subseteq> set ?gram"
    using assms(2) by auto
  then show ?thesis using sub by (auto simp: all_tokens_present_def)
qed

lemma find_None_I: "(\<And>x. x \<in> set xs \<Longrightarrow> \<not> P x) \<Longrightarrow> List.find P xs = None"
  by (simp add: find_None_iff)

text \<open>
  Claim C8.  The lemma stage returns no match when the text yields no tokens, and
  otherwise the first phrase, in list order, that satisfies one of the two conditions:
  all its tokens are among the lemmas, or its normalized form is an n-gram of the lemma
  sequence.  This holds without an analyzer (the tokens are then the split of the
  normalized text) and with any analyzer whose lemmas contain no whitespace.  For such
  lemmas a phrase that is an n-gram also has all its tokens among the lemmas, so the
  n-gram loop never finds a phrase that the first loop has not returned already.
\<close>

theorem lemma_token_match_first:
  assumes "case nlp of None \<Rightarrow> True
           | Some analyze \<Rightarrow> \<forall>t \<in> set (analyze text). \<forall>c \<in> set t. \<not> is_space c"
  shows "lemma_token_match nlp text patterns =
           (if lemmatize_tokens nlp text = [] then None
            else List.find (\<lambda>p. all_tokens_present (lemmatize_tokens nlp text) p \<or>
                                is_ngram (lemmatize_tokens nlp text) p) patterns)"
proof -
  let ?tokens = "lemmatize_tokens nlp text"
  have sf: "\<forall>t \<in> set ?tokens. space_free t"
  proof (cases nlp)
    case None
    then show ?thesis by (auto simp: lemmatize_tokens_def split_space_free)
  next
    case (Some analyze)
    then show ?thesis using assms by (auto simp: lemmatize_tokens_def space_free_def)
  qed
  have imp: "is_ngram ?tokens p \<Longrightarrow> all_tokens_present ?tokens p" for p
    using ngram_tokens_present [OF sf] by (auto simp: is_ngram_def)
  then have same: "(\<lambda>p. all_tokens_present ?tokens p \<or> is_ngram ?tokens p) = all_tokens_present ?tokens"
    by auto
  show ?thesis
  proof (cases "List.find (all_tokens_present ?tokens) patterns")
    case (Some p)
    then have "List.find (\<lambda>p. \<forall>pt \<in> set (split (normalize_keep_paren p)). pt \<in> set ?tokens) patterns = Some p"
      by (simp add: all_tokens_present_def [abs_def])
    then show ?thesis
      using Some by (simp add: lemma_token_match_def same Let_def)
  next
    case None
    then have no: "\<And>p. p \<in> set patterns \<Longrightarrow> \<not> all_tokens_present ?tokens p"
      by (simp add: find_None_iff)
    have grams: "List.find (\<lambda>p. normalize_keep_paren p = join (take n (drop i ?tokens))) patterns = None" for n i
    proof (rule find_None_I)
      fix p assume "p \<in> set patterns"
      then show "normalize_keep_paren p \<noteq> join (take n (drop i ?tokens))"
        using no ngram_tokens_present [OF sf] by blast
    qed
    have first: "List.find (\<lambda>p. \<forall>pt \<in> set (split (normalize_keep_paren p)). pt \<in> set ?tokens) patterns = None"
      using None by (simp add: all_tokens_present_def [abs_def])
    show ?thesis
      using None by (simp add: lemma_token_match_def same Let_def first grams first_some_None)
  qed
qed

lemma tokens_example: "lemmatize_tokens None ''odd even stuff'' = [''odd'', ''even'', ''stuff'']"
  by code_simp

lemma present_example:
  "\<not> all_tokens_present [''odd'', ''even'', ''stuff''] ''base case'' \<and>
   all_tokens_present [''odd'', ''even'', ''stuff''] ''odd/even''"
  by code_simp

lemma space_free_example: "\<forall>t \<in> set [''odd'', ''even'', ''stuff'']. space_free t"
  by code_simp

text \<open>
  The theorem without an analyzer, at the text \<open>odd even stuff\<close>.
\<close>

theorem lemma_token_match_first_witness:
  "(case None :: analyzer of None \<Rightarrow> True
    | Some analyze \<Rightarrow> \<forall>t \<in> set (analyze ''odd even stuff''). \<forall>c \<in> set t. \<not> is_space c) \<and>
   lemma_token_match None ''odd even stuff'' [''base case'', ''odd/even''] = Some ''odd/even''"
proof -
  have a: "case None :: analyzer of None \<Rightarrow> True
    | Some analyze \<Rightarrow> \<forall>t \<in> set (analyze ''odd even stuff''). \<forall>c \<in> set t. \<not> is_space c"
    by simp
  have "\<not> is_ngram [''odd'', ''even'', ''stuff''] ''base case''"
    using present_example ngram_tokens_present [OF space_free_example]
    by (auto simp: is_ngram_def)
  then have "lemma_token_match None ''odd even stuff'' [''base case'', ''odd/even''] = Some ''odd/even''"
    using lemma_token_match_first [of "''odd even stuff''" None "[''base case'', ''odd/even'']", OF a]
      present_example
    by (simp add: tokens_example)
  then show ?thesis by simp
qed

end
